theory Spec2Isabelle
  imports Complex_Main "HOL-Library.Log_Nat"
begin

section \<open>Python numbers\<close>

text \<open>
  The handlers of \<^verbatim>\<open>app.py\<close> compute with two kinds of Python numbers: \<^verbatim>\<open>int\<close>
  (unbounded; the columns \<^verbatim>\<open>tickets_opened\<close> and \<^verbatim>\<open>tickets_closed\<close>) and \<^verbatim>\<open>float\<close>
  (IEEE-754 binary64; the column \<^verbatim>\<open>avg_resolution_time\<close>). A finite float is modelled by the
  rational number it denotes (the sign of a zero is not kept), and every arithmetic
  operation rounds its exact result to the nearest binary64 number, ties to even.
\<close>

datatype double = Finite rat | PosInf | NegInf | NaN

definition pow2 :: "int \<Rightarrow> rat" where
  "pow2 k = (if 0 \<le> k then 2 ^ nat k else 1 / 2 ^ nat (- k))"

text \<open>The exponent \<open>e\<close> with \<open>2^e \<le> x < 2^(e+1)\<close>, for a positive rational \<open>x\<close>.\<close>

definition ilog2 :: "rat \<Rightarrow> int" where
  "ilog2 x = (case quotient_of x of (p, q) \<Rightarrow>
     (let d = bitlen p - bitlen q in if pow2 d \<le> x then d else d - 1))"

definition round_half_even :: "rat \<Rightarrow> int" where
  "round_half_even x = (let n = \<lfloor>x\<rfloor>; r = x - of_int n in
     if r < 1 / 2 then n
     else if 1 / 2 < r then n + 1
     else if even n then n else n + 1)"

text \<open>
  Rounding to binary64. A float has 53 significant bits, so the floats next to a positive
  \<open>a\<close> with \<open>2^e \<le> a < 2^(e+1)\<close> are the multiples of \<open>2^(e-52)\<close>; the least exponent
  of a normal number is \<open>-1022\<close>, and below it the spacing stays \<open>2^-1074\<close>. A result of
  magnitude \<open>2^1024\<close> or more is infinite.
\<close>

definition quantum :: "rat \<Rightarrow> rat" where
  "quantum a = pow2 (max (ilog2 a) (- 1022) - 52)"

definition round_pos :: "rat \<Rightarrow> rat" where
  "round_pos a = of_int (round_half_even (a / quantum a)) * quantum a"

definition overflows :: "rat \<Rightarrow> bool" where
  "overflows y \<longleftrightarrow> pow2 1024 \<le> y"

definition round_double :: "rat \<Rightarrow> double" where
  "round_double x =
     (if x = 0 then Finite 0
      else (let y = round_pos \<bar>x\<bar>
            in if overflows y then (if 0 < x then PosInf else NegInf)
               else Finite (if 0 < x then y else - y)))"

fun fneg :: "double \<Rightarrow> double" where
  "fneg (Finite x) = Finite (- x)"
| "fneg PosInf = NegInf"
| "fneg NegInf = PosInf"
| "fneg NaN = NaN"

fun fadd :: "double \<Rightarrow> double \<Rightarrow> double" where
  "fadd (Finite x) (Finite y) = round_double (x + y)"
| "fadd NaN _ = NaN"
| "fadd _ NaN = NaN"
| "fadd PosInf NegInf = NaN"
| "fadd NegInf PosInf = NaN"
| "fadd PosInf _ = PosInf"
| "fadd NegInf _ = NegInf"
| "fadd _ PosInf = PosInf"
| "fadd _ NegInf = NegInf"

fun fsign :: "double \<Rightarrow> int" where
  "fsign (Finite x) = (if x = 0 then 0 else if 0 < x then 1 else - 1)"
| "fsign PosInf = 1"
| "fsign NegInf = - 1"
| "fsign NaN = 0"

fun fmul :: "double \<Rightarrow> double \<Rightarrow> double" where
  "fmul (Finite x) (Finite y) = round_double (x * y)"
| "fmul NaN _ = NaN"
| "fmul _ NaN = NaN"
| "fmul a b =
     (if fsign a * fsign b = 0 then NaN
      else if 0 < fsign a * fsign b then PosInf else NegInf)"

text \<open>
  Division of floats by a divisor that is not zero (Python raises before it divides by
  zero, see \<open>py_truediv\<close> below).
\<close>

fun fdiv :: "double \<Rightarrow> double \<Rightarrow> double" where
  "fdiv (Finite x) (Finite y) = round_double (x / y)"
| "fdiv NaN _ = NaN"
| "fdiv _ NaN = NaN"
| "fdiv (Finite x) _ = Finite 0"
| "fdiv a (Finite y) = (if 0 < y then a else fneg a)"
| "fdiv _ _ = NaN"

text \<open>The order of floats: \<^verbatim>\<open>a <= b\<close>, false whenever a NaN is compared.\<close>

fun fle :: "double \<Rightarrow> double \<Rightarrow> bool" where
  "fle NaN _ = False"
| "fle _ NaN = False"
| "fle NegInf _ = True"
| "fle _ PosInf = True"
| "fle (Finite x) (Finite y) = (x \<le> y)"
| "fle _ _ = False"

subsection \<open>Values, exceptions and the arithmetic of the interpreter\<close>

datatype pynum = PInt int | PFloat double

datatype error = OverflowError | ZeroDivisionError | OperationalError

text \<open>Sequencing of computations that may raise: the first exception ends the run.\<close>

definition then_do :: "error + 'a \<Rightarrow> ('a \<Rightarrow> error + 'b) \<Rightarrow> error + 'b" where
  "then_do m f = (case m of Inl e \<Rightarrow> Inl e | Inr x \<Rightarrow> f x)"

text \<open>
  \<^verbatim>\<open>float(n)\<close> for an \<^verbatim>\<open>int\<close>: the nearest float, and \<^verbatim>\<open>OverflowError\<close> when
  that is no finite number.
\<close>

definition py_float :: "int \<Rightarrow> error + double" where
  "py_float n = (case round_double (of_int n) of
     Finite x \<Rightarrow> Inr (Finite x) | _ \<Rightarrow> Inl OverflowError)"

text \<open>Both operands as floats, as the float operators take an \<^verbatim>\<open>int\<close> operand.\<close>

fun as_double :: "pynum \<Rightarrow> error + double" where
  "as_double (PInt n) = py_float n"
| "as_double (PFloat x) = Inr x"

fun py_add :: "pynum \<Rightarrow> pynum \<Rightarrow> error + pynum" where
  "py_add (PInt a) (PInt b) = Inr (PInt (a + b))"
| "py_add a b =
     then_do (as_double a) (\<lambda>x. then_do (as_double b) (\<lambda>y. Inr (PFloat (fadd x y))))"

fun py_mul :: "pynum \<Rightarrow> pynum \<Rightarrow> error + pynum" where
  "py_mul (PInt a) (PInt b) = Inr (PInt (a * b))"
| "py_mul a b =
     then_do (as_double a) (\<lambda>x. then_do (as_double b) (\<lambda>y. Inr (PFloat (fmul x y))))"

text \<open>
  True division \<^verbatim>\<open>a / b\<close>. Two \<^verbatim>\<open>int\<close>s give the correctly rounded quotient; with a
  float operand both are converted first. A zero divisor raises.
\<close>

fun py_truediv :: "pynum \<Rightarrow> pynum \<Rightarrow> error + pynum" where
  "py_truediv (PInt a) (PInt b) =
     (if b = 0 then Inl ZeroDivisionError
      else (case round_double (of_int a / of_int b) of
              Finite x \<Rightarrow> Inr (PFloat (Finite x)) | _ \<Rightarrow> Inl OverflowError))"
| "py_truediv a b =
     then_do (as_double a) (\<lambda>x. then_do (as_double b) (\<lambda>y.
       if y = Finite 0 then Inl ZeroDivisionError else Inr (PFloat (fdiv x y))))"

text \<open>The comparison \<^verbatim>\<open>a > n\<close> of a number with an \<^verbatim>\<open>int\<close>.\<close>

fun py_gt :: "pynum \<Rightarrow> int \<Rightarrow> bool" where
  "py_gt (PInt a) n = (n < a)"
| "py_gt (PFloat (Finite x)) n = (of_int n < x)"
| "py_gt (PFloat PosInf) n = True"
| "py_gt (PFloat _) n = False"

text \<open>
  The builtin \<^verbatim>\<open>sum\<close> over a generator: it starts from the \<^verbatim>\<open>int\<close> 0 and adds the
  items from left to right; an item is computed when the loop reaches it, so the
  exception of an item, or of an addition, ends the sum there. (From version 3.12 on
  CPython adds floats with a compensated sum; it gives the value below whenever there
  is one item, and whenever no addition rounds.)
\<close>

fun sum_from :: "pynum \<Rightarrow> (error + pynum) list \<Rightarrow> error + pynum" where
  "sum_from acc [] = Inr acc"
| "sum_from acc (i # is) =
     then_do i (\<lambda>x. then_do (py_add acc x) (\<lambda>acc'. sum_from acc' is))"

definition py_sum :: "(error + pynum) list \<Rightarrow> error + pynum" where
  "py_sum is = sum_from (PInt 0) is"

section \<open>The ticket summary of \<^verbatim>\<open>guild_stats\<close>\<close>

text \<open>
  Modelled from the spec: the types of the columns of \<^verbatim>\<open>ticket_stats\<close>, whose schema is
  not part of the repository (integers for the two counts, a float for the resolution
  time; the date is kept as a day number).

  The record is one element of \<^verbatim>\<open>ticket_stats\<close> in \<^verbatim>\<open>guild_stats\<close>: the dictionary
  that \<^verbatim>\<open>row_to_dict\<close> builds from a row of the query, with the four selected columns.
\<close>

record daily_stat =
  date :: int
  tickets_opened :: int
  tickets_closed :: int
  avg_resolution_time :: double

text \<open>The value of the key \<^verbatim>\<open>"total"\<close> of the response.\<close>

record ticket_total =
  opened :: pynum
  closed :: pynum
  total_avg_resolution_time :: pynum

text \<open>
  The three generator expressions of lines 110 to 115:
  \<^verbatim>\<open>stat["tickets_opened"] for stat in ticket_stats\<close>,
  \<^verbatim>\<open>stat["tickets_closed"] for stat in ticket_stats if stat["tickets_closed"] > 0\<close> and
  \<^verbatim>\<open>stat["avg_resolution_time"] * stat["tickets_closed"] for stat in ticket_stats if stat["tickets_closed"] > 0\<close>.
\<close>

definition closed_rows :: "daily_stat list \<Rightarrow> daily_stat list" where
  "closed_rows ticket_stats = filter (\<lambda>stat. 0 < tickets_closed stat) ticket_stats"

definition opened_items :: "daily_stat list \<Rightarrow> (error + pynum) list" where
  "opened_items ticket_stats = map (\<lambda>stat. Inr (PInt (tickets_opened stat))) ticket_stats"

definition closed_items :: "daily_stat list \<Rightarrow> (error + pynum) list" where
  "closed_items ticket_stats = map (\<lambda>stat. Inr (PInt (tickets_closed stat))) ticket_stats"

definition weighted_items :: "daily_stat list \<Rightarrow> (error + pynum) list" where
  "weighted_items ticket_stats =
     map (\<lambda>stat. py_mul (PFloat (avg_resolution_time stat)) (PInt (tickets_closed stat)))
       (closed_rows ticket_stats)"

text \<open>
  Lines 112 to 115, a conditional expression: the condition (the sum of the closed
  counts over the rows with a positive count is positive) is evaluated first, then the
  numerator, the denominator and their quotient; otherwise the value is the \<^verbatim>\<open>int\<close> 0.
\<close>

definition avg_resolution_total :: "daily_stat list \<Rightarrow> error + pynum" where
  "avg_resolution_total ticket_stats =
     then_do (py_sum (closed_items (closed_rows ticket_stats))) (\<lambda>c.
       if py_gt c 0
       then then_do (py_sum (weighted_items ticket_stats)) (\<lambda>n.
            then_do (py_sum (closed_items (closed_rows ticket_stats))) (\<lambda>d.
              py_truediv n d))
       else Inr (PInt 0))"

definition tickets_total :: "daily_stat list \<Rightarrow> error + ticket_total" where
  "tickets_total ticket_stats =
     then_do (py_sum (opened_items ticket_stats)) (\<lambda>opn.
     then_do (py_sum (closed_items ticket_stats)) (\<lambda>cls.
     then_do (avg_resolution_total ticket_stats) (\<lambda>avg.
       Inr \<lparr>opened = opn, closed = cls, total_avg_resolution_time = avg\<rparr>)))"


section \<open>The store\<close>

text \<open>
  Modelled from the spec: the types of the columns of the four tables, whose schema is
  not part of the repository. The rows carry the columns that the queries of
  \<^verbatim>\<open>app.py\<close> name; identifiers of guilds and owners are strings, ratings and keys are
  integers, timestamps are numbers. A server row may have no key (\<^verbatim>\<open>NULL\<close>), and the
  key of a license is never \<^verbatim>\<open>NULL\<close>.
\<close>

record activated_server =
  guild_id :: string
  server_name :: string
  owner_id :: string
  owner_name :: string
  activated_at :: int
  active :: bool
  key_id :: "int option"

record license_key =
  lk_key_id :: int
  key_value :: string
  created_at :: int
  created_by :: string
  used :: bool
  used_by :: "string option"
  used_at :: "int option"
  expires_at :: "int option"

record ticket_stats_row =
  ts_guild_id :: string
  ts_stat :: daily_stat

record feedback_row =
  fb_guild_id :: string
  rating :: int

record database =
  activated_servers :: "activated_server list"
  license_keys :: "license_key list"
  ticket_stats :: "ticket_stats_row list"
  feedback :: "feedback_row list"

text \<open>
  The process environment: the configured secret \<^verbatim>\<open>API_KEY\<close> (\<^verbatim>\<open>os.getenv\<close> gives
  \<^verbatim>\<open>None\<close> when it is unset) and the store behind \<^verbatim>\<open>DATABASE_URL\<close>; without a
  reachable store \<^verbatim>\<open>psycopg2.connect\<close> raises. A statement executed on an open
  connection returns its rows: the failure of the store is modelled at the connection.
\<close>

record environ =
  API_KEY :: "string option"
  store :: "database option"

text \<open>The statements of the handlers, by the line of \<^verbatim>\<open>cur.execute\<close>, with their parameter.\<close>

datatype query =
    SelectGuild string
  | SelectTicketStats string
  | SelectFeedbackOverall string
  | SelectFeedbackDistribution string
  | SelectLicenses
  | SelectServers
  | SelectTicketSums string

text \<open>What a request does to the store, in order.\<close>

datatype access = Connect | Execute query | Close

subsection \<open>The queries\<close>

text \<open>
  Line 63, \<^verbatim>\<open>SELECT server_name, owner_name FROM activated_servers WHERE guild_id = %s\<close>
  with \<^verbatim>\<open>fetchone\<close>: the first matching row, or \<^verbatim>\<open>None\<close>.
\<close>

definition select_guild :: "database \<Rightarrow> string \<Rightarrow> (string \<times> string) option" where
  "select_guild db gid =
     (case filter (\<lambda>a. guild_id a = gid) (activated_servers db) of
        [] \<Rightarrow> None
      | a # _ \<Rightarrow> Some (server_name a, owner_name a))"

text \<open>Lines 76 to 82: the rows of the guild, \<^verbatim>\<open>ORDER BY date DESC LIMIT 30\<close>.\<close>

definition select_ticket_stats :: "database \<Rightarrow> string \<Rightarrow> daily_stat list" where
  "select_ticket_stats db gid =
     take 30 (sort_key (\<lambda>stat. - date stat)
       (map ts_stat (filter (\<lambda>r. ts_guild_id r = gid) (ticket_stats db))))"

text \<open>
  Lines 86 to 90: \<^verbatim>\<open>COUNT(*)\<close> and \<^verbatim>\<open>AVG(rating)\<close> over the feedback of the guild; one
  row always, the average \<^verbatim>\<open>NULL\<close> without feedback. (The store rounds the average to
  the scale of its numeric type; the mean is kept exact here.)
\<close>

record feedback_overall =
  total :: nat
  avg_rating :: "rat option"

definition guild_ratings :: "database \<Rightarrow> string \<Rightarrow> int list" where
  "guild_ratings db gid = map rating (filter (\<lambda>r. fb_guild_id r = gid) (feedback db))"

definition select_feedback_overall :: "database \<Rightarrow> string \<Rightarrow> feedback_overall" where
  "select_feedback_overall db gid =
     (let rs = guild_ratings db gid in
      \<lparr>total = length rs,
       avg_rating = (if rs = [] then None
                     else Some (of_int (sum_list rs) / of_nat (length rs)))\<rparr>)"

text \<open>
  Lines 94 to 100: \<^verbatim>\<open>SELECT rating, COUNT(*) ... GROUP BY rating ORDER BY rating\<close>: one
  row for each rating that occurs, with the number of its rows, in ascending order.
\<close>

definition select_feedback_distribution :: "database \<Rightarrow> string \<Rightarrow> (int \<times> nat) list" where
  "select_feedback_distribution db gid =
     (let rs = guild_ratings db gid in
      map (\<lambda>v. (v, count_list rs v)) (sort (remdups rs)))"

text \<open>Lines 134 to 139: all licenses, \<^verbatim>\<open>ORDER BY created_at DESC\<close>.\<close>

definition select_licenses :: "database \<Rightarrow> license_key list" where
  "select_licenses db = sort_key (\<lambda>l. - created_at l) (license_keys db)"

text \<open>
  Lines 156 to 162: \<^verbatim>\<open>activated_servers a JOIN license_keys l ON a.key_id = l.key_id
  ORDER BY a.activated_at DESC\<close>, an inner join: a pair for each server row and each license
  row with the same key; a \<^verbatim>\<open>NULL\<close> key equals none.
\<close>

definition select_servers :: "database \<Rightarrow> (activated_server \<times> license_key) list" where
  "select_servers db =
     sort_key (\<lambda>(a, l). - activated_at a)
       (concat (map (\<lambda>a. map (\<lambda>l. (a, l))
                               (filter (\<lambda>l. key_id a = Some (lk_key_id l)) (license_keys db)))
                    (activated_servers db)))"

text \<open>
  Lines 177 to 182: \<^verbatim>\<open>SELECT SUM(tickets_opened), SUM(tickets_closed) FROM ticket_stats
  WHERE guild_id = %s\<close> with \<^verbatim>\<open>fetchone\<close>: one row always, both sums \<^verbatim>\<open>NULL\<close> when the
  guild has no rows.
\<close>

definition select_ticket_sums :: "database \<Rightarrow> string \<Rightarrow> int option \<times> int option" where
  "select_ticket_sums db gid =
     (let rows = map ts_stat (filter (\<lambda>r. ts_guild_id r = gid) (ticket_stats db)) in
      if rows = [] then (None, None)
      else (Some (sum_list (map tickets_opened rows)), Some (sum_list (map tickets_closed rows))))"

section \<open>The handlers\<close>

record guild_data =
  gd_id :: string
  gd_name :: string
  gd_owner :: string

record guild_report =
  guild :: guild_data
  daily :: "daily_stat list"
  tickets_total_of :: ticket_total
  overall :: feedback_overall
  distribution :: "(int \<times> nat) list"

text \<open>
  An element of \<^verbatim>\<open>servers\<close> in \<^verbatim>\<open>list_servers\<close>. The two ticket fields hold what
  \<^verbatim>\<open>stats[0] or 0\<close> and \<^verbatim>\<open>stats[1] or 0\<close> give; \<open>None\<close> would be a JSON \<^verbatim>\<open>null\<close>.
\<close>

record server =
  sv_guild_id :: string
  sv_server_name :: string
  sv_owner_id :: string
  sv_owner_name :: string
  sv_activated_at :: int
  sv_active :: bool
  sv_license_key :: string
  sv_tickets_opened :: "int option"
  sv_tickets_closed :: "int option"

text \<open>
  The body of a response: a fixed error message, the text of a caught exception
  (\<^verbatim>\<open>str(e)\<close>, kept as the exception), or the data of one of the three listings.
\<close>

datatype body =
    Message string
  | Raised error
  | GuildBody guild_report
  | LicensesBody "license_key list"
  | ServersBody "server list"

type_synonym response = "body \<times> nat"

type_synonym outcome = "response \<times> access list"

record request =
  headers :: "string \<Rightarrow> string option"

text \<open>
  Lines 16 to 22, the decorator: the header \<^verbatim>\<open>X-API-Key\<close> is compared with the
  configured secret, and only when they are equal does the handler run.
\<close>

definition require_api_key :: "('a \<Rightarrow> outcome) \<Rightarrow> environ \<Rightarrow> request \<Rightarrow> 'a \<Rightarrow> outcome" where
  "require_api_key f env req args =
     (if headers req ''X-API-Key'' \<noteq> API_KEY env
      then ((Message ''Unauthorized'', 401), [])
      else f args)"

text \<open>
  \<^verbatim>\<open>x or y\<close> for a value that is \<^verbatim>\<open>None\<close> or an \<^verbatim>\<open>int\<close>: \<^verbatim>\<open>x\<close> when it is
  truthy (an \<^verbatim>\<open>int\<close> other than 0), else \<^verbatim>\<open>y\<close>.
\<close>

definition py_or :: "int option \<Rightarrow> int option \<Rightarrow> int option" where
  "py_or x y = (case x of None \<Rightarrow> y | Some n \<Rightarrow> if n = 0 then y else Some n)"

text \<open>
  Lines 57 to 125. The connection is closed before the response is built, and not at
  all on the 404 path; an exception of the summary is caught by \<^verbatim>\<open>except Exception\<close>.
\<close>

definition guild_stats :: "environ \<Rightarrow> string \<Rightarrow> outcome" where
  "guild_stats env gid =
     (case store env of
        None \<Rightarrow> ((Raised OperationalError, 500), [Connect])
      | Some db \<Rightarrow>
          (case select_guild db gid of
             None \<Rightarrow> ((Message ''Guild not found'', 404), [Connect, Execute (SelectGuild gid)])
           | Some guild_info \<Rightarrow>
               (let guild_data = \<lparr>gd_id = gid, gd_name = fst guild_info, gd_owner = snd guild_info\<rparr>;
                    stats = select_ticket_stats db gid;
                    feedback_overall = select_feedback_overall db gid;
                    feedback_distribution = select_feedback_distribution db gid;
                    trace = [Connect, Execute (SelectGuild gid), Execute (SelectTicketStats gid),
                             Execute (SelectFeedbackOverall gid),
                             Execute (SelectFeedbackDistribution gid), Close]
                in (case tickets_total stats of
                      Inl e \<Rightarrow> ((Raised e, 500), trace)
                    | Inr tot \<Rightarrow>
                        ((GuildBody \<lparr>guild = guild_data, daily = stats, tickets_total_of = tot,
                                     overall = feedback_overall,
                                     distribution = feedback_distribution\<rparr>, 200), trace)))))"

text \<open>Lines 129 to 147.\<close>

definition list_licenses :: "environ \<Rightarrow> unit \<Rightarrow> outcome" where
  "list_licenses env u =
     (case store env of
        None \<Rightarrow> ((Raised OperationalError, 500), [Connect])
      | Some db \<Rightarrow> ((LicensesBody (select_licenses db), 200),
                    [Connect, Execute SelectLicenses, Close]))"

text \<open>
  Lines 164 to 187, the body of the loop over the joined rows: the dictionary of the
  server, then the query of its sums on the same cursor.
\<close>

definition server_of :: "database \<Rightarrow> activated_server \<times> license_key \<Rightarrow> server" where
  "server_of db row =
     (let a = fst row; l = snd row; stats = select_ticket_sums db (guild_id a) in
      \<lparr>sv_guild_id = guild_id a, sv_server_name = server_name a, sv_owner_id = owner_id a,
       sv_owner_name = owner_name a, sv_activated_at = activated_at a, sv_active = active a,
       sv_license_key = key_value l,
       sv_tickets_opened = py_or (fst stats) (Some 0),
       sv_tickets_closed = py_or (snd stats) (Some 0)\<rparr>)"

text \<open>Lines 151 to 194.\<close>

definition list_servers :: "environ \<Rightarrow> unit \<Rightarrow> outcome" where
  "list_servers env u =
     (case store env of
        None \<Rightarrow> ((Raised OperationalError, 500), [Connect])
      | Some db \<Rightarrow>
          (let rows = select_servers db in
           ((ServersBody (map (server_of db) rows), 200),
            [Connect, Execute SelectServers]
              @ map (\<lambda>row. Execute (SelectTicketSums (guild_id (fst row)))) rows
              @ [Close])))"

text \<open>The three routes: each handler behind the decorator.\<close>

definition route_guild_stats :: "environ \<Rightarrow> request \<Rightarrow> string \<Rightarrow> outcome" where
  "route_guild_stats env req gid = require_api_key (guild_stats env) env req gid"

definition route_list_licenses :: "environ \<Rightarrow> request \<Rightarrow> outcome" where
  "route_list_licenses env req = require_api_key (list_licenses env) env req ()"

definition route_list_servers :: "environ \<Rightarrow> request \<Rightarrow> outcome" where
  "route_list_servers env req = require_api_key (list_servers env) env req ()"

section \<open>Sample data\<close>

text \<open>Two windows to try the summary on: the example of the specification, and days without closures.\<close>

definition example_window :: "daily_stat list" where
  "example_window =
     [\<lparr>date = 2, tickets_opened = 10, tickets_closed = 8, avg_resolution_time = Finite 5\<rparr>,
      \<lparr>date = 1, tickets_opened = 5, tickets_closed = 0, avg_resolution_time = Finite 0\<rparr>]"

definition quiet_window :: "daily_stat list" where
  "quiet_window =
     [\<lparr>date = 2, tickets_opened = 4, tickets_closed = 0, avg_resolution_time = Finite 0\<rparr>,
      \<lparr>date = 1, tickets_opened = 5, tickets_closed = 0, avg_resolution_time = Finite 0\<rparr>]"

text \<open>
  A store with four servers: \<open>g1\<close> with a license, ticket rows and feedback; \<open>g2\<close> with a
  license and nothing else; \<open>g3\<close> without a key; \<open>g4\<close> with a key that no license has.
\<close>

definition sample_server :: "string \<Rightarrow> int \<Rightarrow> int option \<Rightarrow> activated_server" where
  "sample_server g t k =
     \<lparr>guild_id = g, server_name = ''server '' @ g, owner_id = ''42'', owner_name = ''owner'',
      activated_at = t, active = True, key_id = k\<rparr>"

definition sample_license :: "int \<Rightarrow> string \<Rightarrow> license_key" where
  "sample_license k v =
     \<lparr>lk_key_id = k, key_value = v, created_at = k, created_by = ''admin'', used = True,
      used_by = None, used_at = None, expires_at = None\<rparr>"

definition sample_db :: database where
  "sample_db =
     \<lparr>activated_servers =
        [sample_server ''g1'' 10 (Some 1), sample_server ''g2'' 20 (Some 2),
         sample_server ''g3'' 30 None, sample_server ''g4'' 40 (Some 9)],
      license_keys = [sample_license 1 ''KEY-A'', sample_license 2 ''KEY-B''],
      ticket_stats = map (\<lambda>stat. \<lparr>ts_guild_id = ''g1'', ts_stat = stat\<rparr>) example_window,
      feedback = map (\<lambda>r. \<lparr>fb_guild_id = ''g1'', rating = r\<rparr>) [5, 5, 3]\<rparr>"

definition sample_env :: environ where
  "sample_env = \<lparr>API_KEY = Some ''s3cret'', store = Some sample_db\<rparr>"

definition open_env :: environ where
  "open_env = \<lparr>API_KEY = None, store = Some sample_db\<rparr>"

definition bare_request :: request where
  "bare_request = \<lparr>headers = (\<lambda>h. None)\<rparr>"

definition keyed_request :: "string \<Rightarrow> request" where
  "keyed_request k = \<lparr>headers = (\<lambda>h. if h = ''X-API-Key'' then Some k else None)\<rparr>"

section \<open>The bounds of the average\<close>

text \<open>
  The property of the specification: a value lies between the least and the greatest
  \<^verbatim>\<open>avg_resolution_time\<close> among the rows with \<^verbatim>\<open>tickets_closed > 0\<close>.
\<close>

definition between_min_max :: "daily_stat list \<Rightarrow> double \<Rightarrow> bool" where
  "between_min_max ts v \<longleftrightarrow>
     (\<exists>lo\<in>set (closed_rows ts). \<exists>hi\<in>set (closed_rows ts).
        (\<forall>s\<in>set (closed_rows ts).
           fle (avg_resolution_time lo) (avg_resolution_time s)
           \<and> fle (avg_resolution_time s) (avg_resolution_time hi))
        \<and> fle (avg_resolution_time lo) v \<and> fle v (avg_resolution_time hi))"

text \<open>A float proper: finite, and a binary64 number (rounding leaves it as it is).\<close>

fun is_double :: "double \<Rightarrow> bool" where
  "is_double (Finite a) = (round_double a = Finite a)"
| "is_double _ = False"

fun rational_of :: "double \<Rightarrow> rat" where
  "rational_of (Finite a) = a"
| "rational_of _ = 0"

text \<open>The numerator of the weighted mean in exact arithmetic.\<close>

definition exact_sum :: "daily_stat list \<Rightarrow> rat" where
  "exact_sum ts =
     sum_list (map (\<lambda>s. rational_of (avg_resolution_time s) * of_int (tickets_closed s))
                   (closed_rows ts))"

text \<open>
  Two more windows: three tickets closed in 0.1 (the float nearest to one tenth), and
  two days with the times 5.0 and 7.0.
\<close>

definition tenth :: rat where
  "tenth = 3602879701896397 / 36028797018963968"

definition tenth_window :: "daily_stat list" where
  "tenth_window =
     [\<lparr>date = 1, tickets_opened = 3, tickets_closed = 3, avg_resolution_time = Finite tenth\<rparr>]"

definition mixed_window :: "daily_stat list" where
  "mixed_window =
     [\<lparr>date = 3, tickets_opened = 1, tickets_closed = 1, avg_resolution_time = Finite 5\<rparr>,
      \<lparr>date = 2, tickets_opened = 2, tickets_closed = 0, avg_resolution_time = Finite 0\<rparr>,
      \<lparr>date = 1, tickets_opened = 2, tickets_closed = 2, avg_resolution_time = Finite 7\<rparr>]"


section \<open>Facts about the arithmetic\<close>

text \<open>
  The overflow test by the length of the integer part: the equation by which the test is
  evaluated.
\<close>

lemma bitlen_gt_iff:
  assumes "0 \<le> k"
  shows "k < bitlen n \<longleftrightarrow> 2 ^ nat k \<le> n"
proof (cases "0 < n")
  case True
  note b = bitlen_bounds[OF True]
  show ?thesis
  proof
    assume "k < bitlen n"
    then have "nat k \<le> nat (bitlen n - 1)" by simp
    then have "(2::int) ^ nat k \<le> 2 ^ nat (bitlen n - 1)" by (rule power_increasing) simp
    also have "\<dots> \<le> n" using b by simp
    finally show "2 ^ nat k \<le> n" .
  next
    assume "2 ^ nat k \<le> n"
    also have "n < 2 ^ nat (bitlen n)" using b by simp
    finally have "(2::int) ^ nat k < 2 ^ nat (bitlen n)" .
    then have "nat k < nat (bitlen n)" by (simp only: power_strict_increasing_iff one_less_numeral_iff semiring_norm)
    then show "k < bitlen n" using assms by linarith
  qed
next
  case False
  then have "bitlen n = 0" by (simp add: bitlen_alt_def)
  moreover have "\<not> 2 ^ nat k \<le> n" using False by (smt (verit) zero_less_power)
  ultimately show ?thesis using assms by simp
qed

lemma overflows_bitlen [code]: "overflows y \<longleftrightarrow> 1024 < bitlen \<lfloor>y\<rfloor>"
proof -
  have "pow2 1024 = of_int (2 ^ nat 1024)" by (simp add: pow2_def)
  then have "overflows y \<longleftrightarrow> 2 ^ nat 1024 \<le> \<lfloor>y\<rfloor>"
    unfolding overflows_def by (simp only: le_floor_iff)
  also have "\<dots> \<longleftrightarrow> 1024 < bitlen \<lfloor>y\<rfloor>"
    by (rule bitlen_gt_iff[symmetric]) simp
  finally show ?thesis .
qed

lemma pow2_powi: "pow2 k = 2 powi k"
  by (simp add: pow2_def power_int_def field_simps)

lemma pow2_pos: "0 < pow2 k"
  by (simp add: pow2_powi)

lemma pow2_add: "pow2 (a + b) = pow2 a * pow2 b"
  by (simp add: pow2_powi power_int_add)

lemma pow2_mono: "a \<le> b \<Longrightarrow> pow2 a \<le> pow2 b"
  by (simp add: pow2_powi power_int_increasing)

lemma pow2_strict_mono: "a < b \<Longrightarrow> pow2 a < pow2 b"
  by (simp add: pow2_powi power_int_strict_increasing)

lemma bitlen_rat_bounds:
  assumes "0 < p"
  shows "pow2 (bitlen p - 1) \<le> of_int p" "of_int p < pow2 (bitlen p)"
proof -
  from bitlen_bounds[OF assms] have a: "2 ^ nat (bitlen p - 1) \<le> p" and b: "p < 2 ^ nat (bitlen p)"
    by simp_all
  have ge1: "1 \<le> bitlen p" using assms by (simp add: bitlen_alt_def)
  have "(of_int (2 ^ nat (bitlen p - 1)) :: rat) \<le> of_int p"
    using a of_int_le_iff by blast
  then show "pow2 (bitlen p - 1) \<le> of_int p"
    using ge1 by (simp add: pow2_def)
  have "(of_int p :: rat) < of_int (2 ^ nat (bitlen p))"
    using b of_int_less_iff by blast
  then show "of_int p < pow2 (bitlen p)"
    using ge1 by (simp add: pow2_def)
qed

lemma ilog2_bounds:
  assumes "0 < x"
  shows "pow2 (ilog2 x) \<le> x" "x < pow2 (ilog2 x + 1)"
proof -
  obtain p q where pq: "quotient_of x = (p, q)" by (cases "quotient_of x")
  have q: "0 < q" using pq by (rule quotient_of_denom_pos)
  have x: "x = of_int p / of_int q" using pq by (rule quotient_of_div)
  have p: "0 < p" using assms q x by (simp add: zero_less_divide_iff)
  define d where "d = bitlen p - bitlen q"
  note bp = bitlen_rat_bounds[OF p] and bq = bitlen_rat_bounds[OF q]
  have qpos: "(0::rat) < of_int q" using q by simp
  have lo: "pow2 (d - 1) < x"
  proof -
    have "pow2 (d - 1) * of_int q < pow2 (d - 1) * pow2 (bitlen q)"
      using bq(2) pow2_pos by simp
    also have "\<dots> = pow2 (bitlen p - 1)"
      by (simp add: d_def pow2_add[symmetric])
    also have "\<dots> \<le> of_int p" by (rule bp(1))
    finally show ?thesis using qpos by (simp add: x pos_less_divide_eq)
  qed
  have hi: "x < pow2 (d + 1)"
  proof -
    have "of_int p < pow2 (bitlen p)" by (rule bp(2))
    also have "\<dots> = pow2 (d + 1) * pow2 (bitlen q - 1)"
      by (simp add: d_def pow2_add[symmetric])
    also have "\<dots> \<le> pow2 (d + 1) * of_int q"
      using bq(1) pow2_pos by simp
    finally show ?thesis using qpos by (simp add: x pos_divide_less_eq)
  qed
  have il: "ilog2 x = (if pow2 d \<le> x then d else d - 1)"
    by (simp add: ilog2_def pq d_def Let_def)
  show "pow2 (ilog2 x) \<le> x" using lo by (auto simp: il)
  show "x < pow2 (ilog2 x + 1)" using hi by (auto simp: il)
qed

subsection \<open>Rounding is monotone\<close>

lemma rhe_of_int: "round_half_even (of_int n) = n"
  by (simp add: round_half_even_def)

lemma rhe_mono:
  assumes "a \<le> b"
  shows "round_half_even a \<le> round_half_even b"
proof (cases "\<lfloor>a\<rfloor> = \<lfloor>b\<rfloor>")
  case True
  then show ?thesis using assms by (auto simp: round_half_even_def Let_def)
next
  case False
  with floor_mono[OF assms] have "\<lfloor>a\<rfloor> + 1 \<le> \<lfloor>b\<rfloor>" by linarith
  moreover have "round_half_even a \<le> \<lfloor>a\<rfloor> + 1"
    by (simp add: round_half_even_def Let_def)
  moreover have "\<lfloor>b\<rfloor> \<le> round_half_even b"
    by (simp add: round_half_even_def Let_def)
  ultimately show ?thesis by linarith
qed

lemma rhe_ge: "of_int n \<le> a \<Longrightarrow> n \<le> round_half_even a"
  using rhe_mono[of "of_int n" a] by (simp add: rhe_of_int)

lemma rhe_le: "a \<le> of_int n \<Longrightarrow> round_half_even a \<le> n"
  using rhe_mono[of a "of_int n"] by (simp add: rhe_of_int)

lemma ilog2_mono:
  assumes "0 < a" "a \<le> b"
  shows "ilog2 a \<le> ilog2 b"
proof (rule ccontr)
  assume "\<not> ilog2 a \<le> ilog2 b"
  then have "ilog2 b + 1 \<le> ilog2 a" by simp
  then have "pow2 (ilog2 b + 1) \<le> pow2 (ilog2 a)" by (rule pow2_mono)
  also have "\<dots> \<le> a" using assms(1) by (rule ilog2_bounds)
  finally have "pow2 (ilog2 b + 1) \<le> b" using assms(2) by simp
  moreover have "b < pow2 (ilog2 b + 1)" using assms by (intro ilog2_bounds) simp
  ultimately show False by simp
qed

lemma quantum_pos: "0 < quantum a"
  by (simp add: quantum_def pow2_pos)

text \<open>The rounded value of a positive number lies in its binade, closed above.\<close>

lemma round_pos_upper:
  assumes "0 < a"
  shows "round_pos a \<le> pow2 (max (ilog2 a) (- 1022) + 1)"
proof -
  define q where "q = max (ilog2 a) (- 1022) - 52"
  have qa: "quantum a = pow2 q" by (simp add: quantum_def q_def)
  have "a < pow2 (ilog2 a + 1)" using assms by (rule ilog2_bounds)
  also have "\<dots> \<le> pow2 (q + 53)" by (rule pow2_mono) (simp add: q_def)
  also have "\<dots> = pow2 53 * pow2 q" by (simp add: pow2_add mult.commute)
  finally have "a / pow2 q \<le> pow2 53" using pow2_pos[of q] by (simp add: pos_divide_le_eq)
  also have "pow2 53 = of_int (2 ^ 53)" by (simp add: pow2_def)
  finally have "round_half_even (a / pow2 q) \<le> 2 ^ 53" by (rule rhe_le)
  then have "(of_int (round_half_even (a / pow2 q)) :: rat) \<le> of_int (2 ^ 53)"
    using of_int_le_iff by blast
  then have "round_pos a \<le> of_int (2 ^ 53) * pow2 q"
    using pow2_pos[of q] by (simp add: round_pos_def qa)
  also have "of_int (2 ^ 53) * pow2 q = pow2 (q + 53)"
    by (simp add: pow2_add) (simp add: pow2_def)
  finally show ?thesis by (simp add: q_def add.commute)
qed

lemma round_pos_lower:
  assumes "0 < a" "- 1022 \<le> ilog2 a"
  shows "pow2 (ilog2 a) \<le> round_pos a"
proof -
  define q where "q = ilog2 a - 52"
  have qa: "quantum a = pow2 q" using assms(2) by (simp add: quantum_def q_def max_def)
  have p52: "pow2 52 = of_int (2 ^ 52)" by (simp add: pow2_def)
  have split: "pow2 52 * pow2 q = pow2 (ilog2 a)" by (simp add: pow2_add[symmetric] q_def)
  also have "\<dots> \<le> a" using assms(1) by (rule ilog2_bounds)
  finally have "pow2 52 \<le> a / pow2 q" using pow2_pos[of q] by (simp add: pos_le_divide_eq)
  then have "2 ^ 52 \<le> round_half_even (a / pow2 q)" unfolding p52 by (rule rhe_ge)
  then have "(of_int (2 ^ 52) :: rat) \<le> of_int (round_half_even (a / pow2 q))"
    using of_int_le_iff by blast
  then have "of_int (2 ^ 52) * pow2 q \<le> round_pos a"
    using pow2_pos[of q] by (simp add: round_pos_def qa)
  then show ?thesis unfolding p52[symmetric] split .
qed

lemma round_pos_nonneg: "0 < a \<Longrightarrow> 0 \<le> round_pos a"
proof -
  assume "0 < a"
  then have "0 \<le> a / quantum a" using quantum_pos[of a] by simp
  then have "0 \<le> round_half_even (a / quantum a)" using rhe_ge[of 0] by simp
  then show ?thesis using quantum_pos[of a] by (simp add: round_pos_def)
qed

lemma round_pos_mono:
  assumes "0 < a" "a \<le> b"
  shows "round_pos a \<le> round_pos b"
proof -
  have b: "0 < b" using assms by simp
  define ka where "ka = max (ilog2 a) (- 1022)"
  define kb where "kb = max (ilog2 b) (- 1022)"
  have k: "ka \<le> kb" using ilog2_mono[OF assms] by (simp add: ka_def kb_def)
  show ?thesis
  proof (cases "ka = kb")
    case True
    then have q: "quantum a = quantum b" by (simp add: quantum_def ka_def kb_def)
    have "a / quantum b \<le> b / quantum b"
      using assms(2) quantum_pos[of b] by (simp add: divide_right_mono)
    then have "round_half_even (a / quantum b) \<le> round_half_even (b / quantum b)"
      by (rule rhe_mono)
    then have "(of_int (round_half_even (a / quantum b)) :: rat)
                 \<le> of_int (round_half_even (b / quantum b))"
      using of_int_le_iff by blast
    then show ?thesis using quantum_pos[of b] by (simp add: round_pos_def q)
  next
    case False
    with k have lt: "ka + 1 \<le> kb" by simp
    then have big: "- 1022 \<le> ilog2 b" and kb: "kb = ilog2 b"
      by (auto simp: ka_def kb_def max_def split: if_splits)
    have "round_pos a \<le> pow2 (ka + 1)"
      using round_pos_upper[OF assms(1)] by (simp add: ka_def)
    also have "\<dots> \<le> pow2 kb" using lt by (rule pow2_mono)
    also have "\<dots> \<le> round_pos b" unfolding kb using b big by (rule round_pos_lower)
    finally show ?thesis .
  qed
qed

lemma round_double_pos:
  "0 < x \<Longrightarrow> round_double x = (if pow2 1024 \<le> round_pos x then PosInf else Finite (round_pos x))"
  by (simp add: round_double_def Let_def overflows_def)

lemma round_double_neg:
  "x < 0 \<Longrightarrow> round_double x =
     (if pow2 1024 \<le> round_pos (- x) then NegInf else Finite (- round_pos (- x)))"
  by (simp add: round_double_def Let_def overflows_def)

lemma round_double_not_NaN: "round_double x \<noteq> NaN"
  by (simp add: round_double_def Let_def overflows_def)

lemma fle_round_double_nonneg: "0 \<le> x \<Longrightarrow> fle (Finite 0) (round_double x)"
proof (cases "x = 0")
  case True
  then show ?thesis by (simp add: round_double_def)
next
  case False
  assume "0 \<le> x"
  with False have "0 < x" by simp
  then show ?thesis using round_pos_nonneg[of x] by (simp add: round_double_pos)
qed

lemma fle_round_double_nonpos: "x \<le> 0 \<Longrightarrow> fle (round_double x) (Finite 0)"
proof (cases "x = 0")
  case True
  then show ?thesis by (simp add: round_double_def)
next
  case False
  assume "x \<le> 0"
  with False have "x < 0" by simp
  then show ?thesis using round_pos_nonneg[of "- x"] by (simp add: round_double_neg)
qed

lemma fle_trans: "fle a b \<Longrightarrow> fle b c \<Longrightarrow> fle a c"
  by (cases a; cases b; cases c) simp_all

lemma round_double_mono:
  assumes "x \<le> y"
  shows "fle (round_double x) (round_double y)"
proof -
  consider "0 < x" | "y < 0" | "x \<le> 0" "0 \<le> y" by linarith
  then show ?thesis
  proof cases
    case 1
    then have y: "0 < y" using assms by simp
    from round_pos_mono[OF 1 assms] show ?thesis
      by (simp add: round_double_pos 1 y)
  next
    case 2
    then have x: "x < 0" using assms by simp
    have "round_pos (- y) \<le> round_pos (- x)"
      using 2 assms by (intro round_pos_mono) simp_all
    then show ?thesis by (simp add: round_double_neg 2 x)
  next
    case 3
    then show ?thesis
      using fle_trans[OF fle_round_double_nonpos fle_round_double_nonneg] by blast
  qed
qed

lemma ilog2_ge:
  assumes "pow2 k \<le> a"
  shows "k \<le> ilog2 a"
proof -
  have a: "0 < a" using assms pow2_pos[of k] by simp
  have "pow2 k < pow2 (ilog2 a + 1)" using assms ilog2_bounds(2)[OF a] by simp
  then have "k < ilog2 a + 1"
    using pow2_mono[of "ilog2 a + 1" k] by (cases "k < ilog2 a + 1") simp_all
  then show ?thesis by simp
qed

lemma ilog2_less:
  assumes "0 < a" "a < pow2 k"
  shows "ilog2 a < k"
proof -
  have "pow2 (ilog2 a) < pow2 k" using assms ilog2_bounds(1)[OF assms(1)] by simp
  then show ?thesis
    using pow2_mono[of k "ilog2 a"] by (cases "ilog2 a < k") simp_all
qed

lemma round_pos_ge_one:
  assumes "1 \<le> a"
  shows "1 \<le> round_pos a"
proof -
  have one: "pow2 0 = 1" by (simp add: pow2_def)
  have e: "0 \<le> ilog2 a" using assms by (intro ilog2_ge) (simp add: one)
  have a: "0 < a" using assms by simp
  have "pow2 0 \<le> pow2 (ilog2 a)" using e by (rule pow2_mono)
  also have "\<dots> \<le> round_pos a" using a e by (intro round_pos_lower) simp_all
  finally show ?thesis by (simp add: one)
qed

lemma round_double_of_int_nonzero:
  assumes "n \<noteq> 0"
  shows "round_double (of_int n) \<noteq> Finite 0"
proof (cases "0 < n")
  case True
  then have "(1::rat) \<le> of_int n" by simp
  from round_pos_ge_one[OF this] show ?thesis using True by (simp add: round_double_pos)
next
  case False
  with assms have n: "n < 0" by simp
  then have "(1::rat) \<le> - of_int n" by simp
  from round_pos_ge_one[OF this] show ?thesis using n by (simp add: round_double_neg)
qed


section \<open>Sums of the integer columns\<close>

lemma sum_from_ints:
  "sum_from (PInt a) (map (\<lambda>s. Inr (PInt (f s))) xs) = Inr (PInt (a + sum_list (map f xs)))"
  by (induction xs arbitrary: a) (simp_all add: then_do_def add.assoc)

lemma py_sum_opened_items:
  "py_sum (opened_items ts) = Inr (PInt (sum_list (map tickets_opened ts)))"
  by (simp add: py_sum_def opened_items_def sum_from_ints)

lemma py_sum_closed_items:
  "py_sum (closed_items ts) = Inr (PInt (sum_list (map tickets_closed ts)))"
  by (simp add: py_sum_def closed_items_def sum_from_ints)

lemma closed_rows_sum_nonneg:
  "0 \<le> sum_list (map tickets_closed (closed_rows ts))"
  by (induction ts) (simp_all add: closed_rows_def)

lemma closed_rows_sum_pos_iff:
  "0 < sum_list (map tickets_closed (closed_rows ts)) \<longleftrightarrow> (\<exists>s\<in>set ts. 0 < tickets_closed s)"
proof (induction ts)
  case Nil
  show ?case by (simp add: closed_rows_def)
next
  case (Cons s ts)
  have nn: "0 \<le> sum_list (map tickets_closed (closed_rows ts))"
    by (rule closed_rows_sum_nonneg)
  show ?case
  proof (cases "0 < tickets_closed s")
    case True
    with nn show ?thesis by (simp add: closed_rows_def)
  next
    case False
    with Cons.IH show ?thesis by (simp add: closed_rows_def)
  qed
qed

section \<open>Exceptions of the ticket summary\<close>

lemma then_do_neq:
  assumes "m \<noteq> Inl e" "\<And>x. m = Inr x \<Longrightarrow> f x \<noteq> Inl e"
  shows "then_do m f \<noteq> Inl e"
  using assms by (cases m) (simp_all add: then_do_def)

lemma then_do_eq_Inl:
  "then_do m f = Inl e \<longleftrightarrow> m = Inl e \<or> (\<exists>x. m = Inr x \<and> f x = Inl e)"
  by (cases m) (simp_all add: then_do_def)

lemma py_float_no_zero_division: "py_float n \<noteq> Inl ZeroDivisionError"
  by (simp add: py_float_def split: double.splits)

lemma as_double_no_zero_division: "as_double a \<noteq> Inl ZeroDivisionError"
  by (cases a) (simp_all add: py_float_no_zero_division)

lemma py_add_no_zero_division: "py_add a b \<noteq> Inl ZeroDivisionError"
  by (cases a; cases b) (simp_all add: then_do_eq_Inl py_float_no_zero_division)

lemma py_mul_no_zero_division: "py_mul a b \<noteq> Inl ZeroDivisionError"
  by (cases a; cases b) (simp_all add: then_do_eq_Inl py_float_no_zero_division)

lemma sum_from_no_zero_division:
  assumes "\<forall>i\<in>set items. i \<noteq> Inl ZeroDivisionError"
  shows "sum_from acc items \<noteq> Inl ZeroDivisionError"
  using assms
proof (induction items arbitrary: acc)
  case Nil
  show ?case by simp
next
  case (Cons i items)
  show ?case
    unfolding sum_from.simps
  proof (intro then_do_neq)
    show "i \<noteq> Inl ZeroDivisionError" using Cons.prems by simp
    show "py_add acc x \<noteq> Inl ZeroDivisionError" for x by (rule py_add_no_zero_division)
    show "sum_from acc' items \<noteq> Inl ZeroDivisionError" for acc'
      using Cons.prems by (intro Cons.IH) simp
  qed
qed

lemma weighted_sum_no_zero_division:
  "py_sum (weighted_items ts) \<noteq> Inl ZeroDivisionError"
  unfolding py_sum_def
  by (rule sum_from_no_zero_division)
    (simp add: weighted_items_def py_mul_no_zero_division del: py_mul.simps)

lemma py_float_nonzero:
  assumes "d \<noteq> 0" "py_float d = Inr y"
  shows "y \<noteq> Finite 0"
  using assms round_double_of_int_nonzero[OF assms(1)]
  by (auto simp: py_float_def split: double.splits)

lemma py_truediv_no_zero_division:
  assumes "d \<noteq> 0"
  shows "py_truediv n (PInt d) \<noteq> Inl ZeroDivisionError"
proof (cases n)
  case (PInt a)
  then show ?thesis using assms by (simp split: double.splits)
next
  case (PFloat x)
  show ?thesis
    unfolding PFloat py_truediv.simps
  proof (intro then_do_neq)
    show "as_double (PFloat x) \<noteq> Inl ZeroDivisionError" by (rule as_double_no_zero_division)
    show "as_double (PInt d) \<noteq> Inl ZeroDivisionError" by (rule as_double_no_zero_division)
    show "(if y = Finite 0 then Inl ZeroDivisionError else Inr (PFloat (fdiv x' y)))
            \<noteq> Inl ZeroDivisionError"
      if "as_double (PInt d) = Inr y" for x' y
      using py_float_nonzero[OF assms, of y] that by simp
  qed
qed

lemma closed_rows_all_zero:
  "\<forall>s\<in>set ts. tickets_closed s = 0 \<Longrightarrow> closed_rows ts = []"
  by (induction ts) (simp_all add: closed_rows_def)

lemma avg_resolution_total_cases:
  "avg_resolution_total ts =
     (if 0 < sum_list (map tickets_closed (closed_rows ts))
      then then_do (py_sum (weighted_items ts)) (\<lambda>n.
             py_truediv n (PInt (sum_list (map tickets_closed (closed_rows ts)))))
      else Inr (PInt 0))"
  by (simp add: avg_resolution_total_def py_sum_closed_items then_do_def)

section \<open>Facts about the queries\<close>

lemma select_guild_None:
  "select_guild db gid = None \<longleftrightarrow> (\<forall>a\<in>set (activated_servers db). guild_id a \<noteq> gid)"
proof -
  have "select_guild db gid = None \<longleftrightarrow> filter (\<lambda>a. guild_id a = gid) (activated_servers db) = []"
    by (simp add: select_guild_def split: list.splits)
  then show ?thesis by (simp add: filter_empty_conv)
qed

lemma py_or_zero: "\<exists>n. py_or x (Some 0) = Some n"
  by (cases x) (simp_all add: py_or_def)

lemma select_ticket_sums_none:
  assumes "\<forall>r\<in>set (ticket_stats db). ts_guild_id r \<noteq> gid"
  shows "select_ticket_sums db gid = (None, None)"
proof -
  have "filter (\<lambda>r. ts_guild_id r = gid) (ticket_stats db) = []"
    using assms by (simp add: filter_empty_conv)
  then show ?thesis by (simp add: select_ticket_sums_def)
qed

lemma server_of_tickets:
  "\<exists>n m. sv_tickets_opened (server_of db row) = Some n \<and> sv_tickets_closed (server_of db row) = Some m"
  using py_or_zero by (simp add: server_of_def Let_def)

lemma server_of_no_rows:
  assumes "\<forall>r\<in>set (ticket_stats db). ts_guild_id r \<noteq> sv_guild_id (server_of db row)"
  shows "sv_tickets_opened (server_of db row) = Some 0 \<and> sv_tickets_closed (server_of db row) = Some 0"
proof -
  have "sv_guild_id (server_of db row) = guild_id (fst row)" by (simp add: server_of_def Let_def)
  with assms have "select_ticket_sums db (guild_id (fst row)) = (None, None)"
    by (intro select_ticket_sums_none) simp
  then show ?thesis by (simp add: server_of_def Let_def py_or_def)
qed

lemma list_servers_body:
  "store env = Some db \<Longrightarrow>
     fst (list_servers env ()) = (ServersBody (map (server_of db) (select_servers db)), 200)"
  by (simp add: list_servers_def Let_def)

lemma set_select_servers:
  "set (select_servers db) =
     {(a, l). a \<in> set (activated_servers db) \<and> l \<in> set (license_keys db)
              \<and> key_id a = Some (lk_key_id l)}"
  by (auto simp: select_servers_def)

lemma server_of_fields:
  "sv_guild_id (server_of db (a, l)) = guild_id a"
  "sv_license_key (server_of db (a, l)) = key_value l"
  by (simp_all add: server_of_def Let_def)

lemma distribution_counts_positive:
  assumes "(v, c) \<in> set (select_feedback_distribution db gid)"
  shows "0 < c"
proof -
  from assms have "v \<in> set (guild_ratings db gid)" and "c = count_list (guild_ratings db gid) v"
    by (auto simp: select_feedback_distribution_def Let_def)
  then show ?thesis using count_list_0_iff[of "guild_ratings db gid" v] by simp
qed

lemma distribution_counts_sum:
  "sum_list (map snd (select_feedback_distribution db gid)) = length (guild_ratings db gid)"
proof -
  let ?rs = "guild_ratings db gid"
  have "sum_list (map snd (select_feedback_distribution db gid))
          = sum_list (map (count_list ?rs) (sort (remdups ?rs)))"
    by (simp add: select_feedback_distribution_def Let_def comp_def)
  also have "\<dots> = sum (count_list ?rs) (set (sort (remdups ?rs)))"
    by (rule sum_list_distinct_conv_sum_set) simp
  also have "\<dots> = length ?rs"
    by (simp add: sum_count_set)
  finally show ?thesis .
qed

lemma guild_stats_feedback:
  assumes "store env = Some db" "guild_stats env gid = ((GuildBody rep, code), tr)"
  shows "distribution rep = select_feedback_distribution db gid"
    and "overall rep = select_feedback_overall db gid"
  using assms
  by (auto simp: guild_stats_def Let_def split: option.splits sum.splits)

lemma avg_resolution_total_example:
  "avg_resolution_total example_window = Inr (PFloat (Finite 5))"
  by code_simp

lemma tickets_total_example:
  "tickets_total example_window =
     Inr \<lparr>opened = PInt 15, closed = PInt 8, total_avg_resolution_time = PFloat (Finite 5)\<rparr>"
  by (simp add: tickets_total_def py_sum_opened_items py_sum_closed_items then_do_def
      avg_resolution_total_example) (simp add: example_window_def)

lemma select_ticket_stats_sample: "select_ticket_stats sample_db ''g1'' = example_window"
  by code_simp

section \<open>Exact conversions and the weighted mean\<close>

lemma round_pos_exact:
  assumes "a / quantum a = of_int m"
  shows "round_pos a = a"
proof -
  have "round_pos a = of_int m * quantum a" by (simp add: round_pos_def assms rhe_of_int)
  also have "\<dots> = a" using quantum_pos[of a] assms[symmetric] by simp
  finally show ?thesis .
qed


lemma small_int_on_grid:
  assumes "0 < n" "n \<le> 2 ^ 53"
  shows "\<exists>m. of_int n / quantum (of_int n) = (of_int m :: rat)"
proof -
  let ?a = "of_int n :: rat"
  let ?e = "ilog2 ?a"
  have a: "0 < ?a" using assms(1) by simp
  have "pow2 0 \<le> ?a" using assms(1) by (simp add: pow2_def)
  then have e0: "0 \<le> ?e" by (rule ilog2_ge)
  have q: "quantum ?a = pow2 (?e - 52)" using e0 by (simp add: quantum_def max_def)
  have "?a \<le> of_int (2 ^ 53)" using assms(2) of_int_le_iff by blast
  also have "\<dots> = pow2 53" by (simp add: pow2_def)
  also have "\<dots> < pow2 54" by (rule pow2_strict_mono) simp
  finally have "?e < 54" using a by (intro ilog2_less)
  then consider "?e \<le> 52" | "?e = 53" by linarith
  then show ?thesis
  proof cases
    case 1
    then have "pow2 (?e - 52) = 1 / 2 ^ nat (52 - ?e)"
      by (cases "?e = 52") (simp_all add: pow2_def)
    then have "?a / quantum ?a = of_int (n * 2 ^ nat (52 - ?e))" by (simp add: q)
    then show ?thesis by blast
  next
    case 2
    have "pow2 53 \<le> ?a" using ilog2_bounds(1)[OF a] by (simp add: 2)
    then have "of_int (2 ^ 53) \<le> ?a" by (simp add: pow2_def)
    then have "2 ^ 53 \<le> n" using of_int_le_iff by blast
    with assms(2) have n: "n = 2 ^ 53" by simp
    have "pow2 (?e - 52) = 2" by (simp add: 2 pow2_def)
    then have qa: "quantum ?a = 2" using q by simp
    have "?a / 2 = of_int (2 ^ 52)" unfolding n by simp
    then have "?a / quantum ?a = of_int (2 ^ 52)" by (simp only: qa)
    then show ?thesis by blast
  qed
qed

lemma py_float_small:
  assumes "0 < n" "n \<le> 2 ^ 53"
  shows "py_float n = Inr (Finite (of_int n))"
proof -
  let ?a = "of_int n :: rat"
  have a: "0 < ?a" using assms(1) by simp
  from small_int_on_grid[OF assms] obtain m where "?a / quantum ?a = of_int m" by blast
  then have r: "round_pos ?a = ?a" by (rule round_pos_exact)
  have "?a \<le> of_int (2 ^ 53)" using assms(2) of_int_le_iff by blast
  also have "\<dots> = pow2 53" by (simp add: pow2_def)
  also have "\<dots> < pow2 1024" by (rule pow2_strict_mono) simp
  finally have "\<not> pow2 1024 \<le> round_pos ?a" by (simp add: r)
  then have "round_double ?a = Finite ?a" using a by (simp add: round_double_pos r)
  then show ?thesis by (simp add: py_float_def)
qed

lemma weighted_sum_lower:
  assumes "\<forall>s\<in>set rows. 0 < (w s :: rat) \<and> lo \<le> f s"
  shows "lo * sum_list (map w rows) \<le> sum_list (map (\<lambda>s. f s * w s) rows)"
  using assms
proof (induction rows)
  case Nil
  show ?case by simp
next
  case (Cons s rows)
  then have "lo * w s \<le> f s * w s" by (simp add: mult_right_mono)
  moreover have "lo * sum_list (map w rows) \<le> sum_list (map (\<lambda>s. f s * w s) rows)"
    using Cons by simp
  ultimately show ?case by (simp add: distrib_left)
qed

lemma weighted_sum_upper:
  assumes "\<forall>s\<in>set rows. 0 < (w s :: rat) \<and> f s \<le> hi"
  shows "sum_list (map (\<lambda>s. f s * w s) rows) \<le> hi * sum_list (map w rows)"
  using assms
proof (induction rows)
  case Nil
  show ?case by simp
next
  case (Cons s rows)
  then have "f s * w s \<le> hi * w s" by (simp add: mult_right_mono)
  moreover have "sum_list (map (\<lambda>s. f s * w s) rows) \<le> hi * sum_list (map w rows)"
    using Cons by simp
  ultimately show ?case by (simp add: distrib_left)
qed

lemma least_row:
  assumes "rows \<noteq> []"
  shows "\<exists>lo\<in>set rows. \<forall>s\<in>set rows. (f lo :: rat) \<le> f s"
proof -
  have "Min (f ` set rows) \<in> f ` set rows" using assms by (intro Min_in) simp_all
  then obtain lo where "lo \<in> set rows" "f lo = Min (f ` set rows)" by auto
  then show ?thesis by (metis Min_le finite_imageI finite_set imageI)
qed

lemma greatest_row:
  assumes "rows \<noteq> []"
  shows "\<exists>hi\<in>set rows. \<forall>s\<in>set rows. (f s :: rat) \<le> f hi"
proof -
  have "Max (f ` set rows) \<in> f ` set rows" using assms by (intro Max_in) simp_all
  then obtain hi where "hi \<in> set rows" "f hi = Max (f ` set rows)" by auto
  then show ?thesis by (metis Max_ge finite_imageI finite_set imageI)
qed

lemma is_double_Finite: "is_double x \<Longrightarrow> x = Finite (rational_of x) \<and> round_double (rational_of x) = x"
  by (cases x) simp_all

lemma of_int_closed_sum:
  "(of_int (sum_list (map tickets_closed rows)) :: rat)
     = sum_list (map (\<lambda>s. of_int (tickets_closed s)) rows)"
  by (induction rows) simp_all

lemma closed_rows_positive: "s \<in> set (closed_rows ts) \<Longrightarrow> 0 < tickets_closed s"
  by (simp add: closed_rows_def)

lemma fle_is_double:
  "is_double x \<Longrightarrow> is_double y \<Longrightarrow> fle x y \<longleftrightarrow> rational_of x \<le> rational_of y"
  by (cases x; cases y) simp_all

lemma exact_mean_between:
  assumes "\<exists>s\<in>set ts. 0 < tickets_closed s"
    and "\<forall>s\<in>set (closed_rows ts). is_double (avg_resolution_time s)"
  shows "between_min_max ts
           (round_double (exact_sum ts / of_int (sum_list (map tickets_closed (closed_rows ts)))))"
proof -
  let ?rows = "closed_rows ts"
  let ?f = "\<lambda>s. rational_of (avg_resolution_time s)"
  let ?w = "\<lambda>s. (of_int (tickets_closed s) :: rat)"
  let ?D = "sum_list (map tickets_closed ?rows)"
  let ?m = "exact_sum ts / of_int ?D"
  have D: "0 < ?D" using assms(1) by (simp add: closed_rows_sum_pos_iff)
  then have ne: "?rows \<noteq> []" by auto
  have Dr: "(0::rat) < of_int ?D" using D by simp
  have wD: "sum_list (map ?w ?rows) = of_int ?D" by (simp add: of_int_closed_sum)
  have N: "exact_sum ts = sum_list (map (\<lambda>s. ?f s * ?w s) ?rows)" by (simp add: exact_sum_def)
  from least_row[OF ne, of ?f] obtain lo where lo: "lo \<in> set ?rows" "\<forall>s\<in>set ?rows. ?f lo \<le> ?f s"
    by blast
  from greatest_row[OF ne, of ?f] obtain hi where hi: "hi \<in> set ?rows" "\<forall>s\<in>set ?rows. ?f s \<le> ?f hi"
    by blast
  have "?f lo * sum_list (map ?w ?rows) \<le> sum_list (map (\<lambda>s. ?f s * ?w s) ?rows)"
    using lo(2) closed_rows_positive by (intro weighted_sum_lower) simp
  then have low: "?f lo \<le> ?m" using Dr by (simp add: wD N pos_le_divide_eq)
  have "sum_list (map (\<lambda>s. ?f s * ?w s) ?rows) \<le> ?f hi * sum_list (map ?w ?rows)"
    using hi(2) closed_rows_positive by (intro weighted_sum_upper) simp
  then have high: "?m \<le> ?f hi" using Dr by (simp add: wD N pos_divide_le_eq)
  have dlo: "is_double (avg_resolution_time lo)" and dhi: "is_double (avg_resolution_time hi)"
    using assms(2) lo(1) hi(1) by simp_all
  have "fle (round_double (?f lo)) (round_double ?m)" using low by (rule round_double_mono)
  then have vlo: "fle (avg_resolution_time lo) (round_double ?m)"
    using is_double_Finite[OF dlo] by simp
  have "fle (round_double ?m) (round_double (?f hi))" using high by (rule round_double_mono)
  then have vhi: "fle (round_double ?m) (avg_resolution_time hi)"
    using is_double_Finite[OF dhi] by simp
  have all: "\<forall>s\<in>set ?rows. fle (avg_resolution_time lo) (avg_resolution_time s)
                 \<and> fle (avg_resolution_time s) (avg_resolution_time hi)"
    using assms(2) lo(2) hi(2) dlo dhi by (simp add: fle_is_double)
  show ?thesis
    unfolding between_min_max_def using lo(1) hi(1) all vlo vhi by blast
qed

lemma py_truediv_exact:
  assumes "0 < d" "d \<le> 2 ^ 53"
  shows "py_truediv (PFloat (Finite n)) (PInt d) = Inr (PFloat (round_double (n / of_int d)))"
  using assms by (simp add: py_float_small then_do_def)

lemma tenth_value:
  "avg_resolution_total tenth_window = Inr (PFloat (Finite (7205759403792795 / 72057594037927936)))"
  by code_simp

text \<open>With an exact numerator the average is the exact weighted mean, rounded once.\<close>

lemma avg_resolution_total_exact:
  assumes "\<exists>s\<in>set ts. 0 < tickets_closed s"
    and "py_sum (weighted_items ts) = Inr (PFloat (Finite (exact_sum ts)))"
    and "sum_list (map tickets_closed (closed_rows ts)) \<le> 2 ^ 53"
  shows "avg_resolution_total ts =
           Inr (PFloat (round_double
             (exact_sum ts / of_int (sum_list (map tickets_closed (closed_rows ts))))))"
proof -
  let ?D = "sum_list (map tickets_closed (closed_rows ts))"
  have D: "0 < ?D" using assms(1) by (simp add: closed_rows_sum_pos_iff)
  have "avg_resolution_total ts = py_truediv (PFloat (Finite (exact_sum ts))) (PInt ?D)"
    using D by (simp add: avg_resolution_total_cases assms(2) then_do_def del: py_truediv.simps)
  also have "\<dots> = Inr (PFloat (round_double (exact_sum ts / of_int ?D)))"
    using D assms(3) by (rule py_truediv_exact)
  finally show ?thesis .
qed

section \<open>The summary returns\<close>









section \<open>Exact arithmetic on a binary grid\<close>














section \<open>The claims about the ticket summary\<close>






text \<open>
  Claim C2. When every row of the window has \<^verbatim>\<open>tickets_closed == 0\<close> (the empty window
  included) the average of the total is the \<^verbatim>\<open>int\<close> 0; and for no window at all does
  the computation raise \<^verbatim>\<open>ZeroDivisionError\<close>: the quotient is only evaluated when the sum
  of the positive closed counts is positive.
\<close>

theorem avg_resolution_total_no_closed:
  "((\<forall>s\<in>set ts. tickets_closed s = 0) \<longrightarrow> avg_resolution_total ts = Inr (PInt 0))
   \<and> avg_resolution_total ts \<noteq> Inl ZeroDivisionError
   \<and> avg_resolution_total ts =
       (if 0 < sum_list (map tickets_closed (filter (\<lambda>s. 0 < tickets_closed s) ts))
        then then_do (py_sum (weighted_items ts)) (\<lambda>n.
               py_truediv n
                 (PInt (sum_list (map tickets_closed (filter (\<lambda>s. 0 < tickets_closed s) ts)))))
        else Inr (PInt 0))"
proof (intro conjI)
  show "(\<forall>s\<in>set ts. tickets_closed s = 0) \<longrightarrow> avg_resolution_total ts = Inr (PInt 0)"
    by (simp add: avg_resolution_total_cases closed_rows_all_zero)
  show "avg_resolution_total ts \<noteq> Inl ZeroDivisionError"
  proof (cases "0 < sum_list (map tickets_closed (closed_rows ts))")
    case True
    then have "sum_list (map tickets_closed (closed_rows ts)) \<noteq> 0" by simp
    then show ?thesis
      unfolding avg_resolution_total_cases
      by (simp add: then_do_eq_Inl weighted_sum_no_zero_division py_truediv_no_zero_division
          del: py_truediv.simps)
  next
    case False
    then show ?thesis by (simp add: avg_resolution_total_cases)
  qed
  show "avg_resolution_total ts =
       (if 0 < sum_list (map tickets_closed (filter (\<lambda>s. 0 < tickets_closed s) ts))
        then then_do (py_sum (weighted_items ts)) (\<lambda>n.
               py_truediv n
                 (PInt (sum_list (map tickets_closed (filter (\<lambda>s. 0 < tickets_closed s) ts)))))
        else Inr (PInt 0))"
    using avg_resolution_total_cases[of ts] by (simp only: closed_rows_def)
qed

theorem avg_resolution_total_no_closed_witness:
  "avg_resolution_total quiet_window = Inr (PInt 0) \<and> avg_resolution_total [] = Inr (PInt 0)
   \<and> avg_resolution_total example_window \<noteq> Inl ZeroDivisionError"
proof -
  have h: "\<forall>s\<in>set quiet_window. tickets_closed s = 0" by (simp add: quiet_window_def)
  have e: "\<forall>s\<in>set ([] :: daily_stat list). tickets_closed s = 0" by simp
  from avg_resolution_total_no_closed[of quiet_window] avg_resolution_total_no_closed[of "[]"]
    avg_resolution_total_no_closed[of example_window] h e
  show ?thesis by blast
qed

section \<open>The claims about the access gate and the guild lookup\<close>

text \<open>
  Claim C3. For a guild id that no row of \<^verbatim>\<open>activated_servers\<close> carries (the lookup of
  line 63 returns no row), the guild report answers 404 "Guild not found", and the store
  has seen the connection and that one lookup only: no query of the ticket rows, none of
  the feedback.
\<close>

theorem guild_stats_not_found:
  assumes "store env = Some db"
    and "\<forall>a\<in>set (activated_servers db). guild_id a \<noteq> gid"
    and "headers req ''X-API-Key'' = API_KEY env"
  shows "route_guild_stats env req gid
           = ((Message ''Guild not found'', 404), [Connect, Execute (SelectGuild gid)])"
proof -
  have "select_guild db gid = None" using assms(2) by (simp add: select_guild_None)
  then show ?thesis
    using assms(1,3) by (simp add: route_guild_stats_def require_api_key_def guild_stats_def)
qed

theorem guild_stats_not_found_witness:
  "route_guild_stats sample_env (keyed_request ''s3cret'') ''g9''
     = ((Message ''Guild not found'', 404), [Connect, Execute (SelectGuild ''g9'')])"
proof -
  have a: "store sample_env = Some sample_db" by (simp add: sample_env_def)
  have b: "\<forall>a\<in>set (activated_servers sample_db). guild_id a \<noteq> ''g9''"
    by (simp add: sample_db_def sample_server_def)
  have c: "headers (keyed_request ''s3cret'') ''X-API-Key'' = API_KEY sample_env"
    by (simp add: keyed_request_def sample_env_def)
  show ?thesis by (rule guild_stats_not_found[OF a b c])
qed

text \<open>
  Claim C8. When the check of the access gate fails (the header \<^verbatim>\<open>X-API-Key\<close> differs from
  the configured secret), each of the three routes answers 401 "Unauthorized" and the
  store is not touched: no connection, no query.
\<close>

theorem unauthorized_before_store:
  assumes "headers req ''X-API-Key'' \<noteq> API_KEY env"
  shows "route_guild_stats env req gid = ((Message ''Unauthorized'', 401), [])
       \<and> route_list_licenses env req = ((Message ''Unauthorized'', 401), [])
       \<and> route_list_servers env req = ((Message ''Unauthorized'', 401), [])"
  using assms
  by (simp add: route_guild_stats_def route_list_licenses_def route_list_servers_def
      require_api_key_def)

theorem unauthorized_before_store_witness:
  "route_guild_stats sample_env bare_request ''g1'' = ((Message ''Unauthorized'', 401), [])
   \<and> route_list_licenses sample_env (keyed_request ''guess'') = ((Message ''Unauthorized'', 401), [])
   \<and> route_list_servers sample_env bare_request = ((Message ''Unauthorized'', 401), [])"
proof -
  have a: "headers bare_request ''X-API-Key'' \<noteq> API_KEY sample_env"
    by (simp add: bare_request_def sample_env_def)
  have b: "headers (keyed_request ''guess'') ''X-API-Key'' \<noteq> API_KEY sample_env"
    by (simp add: keyed_request_def sample_env_def)
  from unauthorized_before_store[OF a, of "''g1''"] unauthorized_before_store[OF b, of "''g1''"]
  show ?thesis by simp
qed

text \<open>
  Claim C9. When the secret is not configured (\<^verbatim>\<open>API_KEY\<close> unset, so \<^verbatim>\<open>None\<close>) and the
  request has no header \<^verbatim>\<open>X-API-Key\<close> (so \<^verbatim>\<open>None\<close> again), the comparison finds them
  equal and the handler runs; the gate rejects exactly the requests whose header value
  differs from the configured one.
\<close>

theorem unset_key_authorizes:
  "(API_KEY env = None \<and> headers req ''X-API-Key'' = None \<longrightarrow>
      route_guild_stats env req gid = guild_stats env gid
    \<and> route_list_licenses env req = list_licenses env ()
    \<and> route_list_servers env req = list_servers env ())
   \<and> (require_api_key f env req args =
         (if headers req ''X-API-Key'' = API_KEY env then f args
          else ((Message ''Unauthorized'', 401), [])))"
  by (simp add: route_guild_stats_def route_list_licenses_def route_list_servers_def
      require_api_key_def)

theorem unset_key_authorizes_witness:
  "route_list_licenses open_env bare_request = list_licenses open_env ()
   \<and> snd (route_list_licenses open_env bare_request) = [Connect, Execute SelectLicenses, Close]"
proof -
  have a: "API_KEY open_env = None \<and> headers bare_request ''X-API-Key'' = None"
    by (simp add: open_env_def bare_request_def)
  have "route_list_licenses open_env bare_request = list_licenses open_env ()"
    using unset_key_authorizes[of open_env bare_request "''g1''" "list_licenses open_env" "()"] a
    by simp
  moreover have "snd (list_licenses open_env ()) = [Connect, Execute SelectLicenses, Close]"
    by (simp add: list_licenses_def open_env_def)
  ultimately show ?thesis by simp
qed

section \<open>The claims about the server listing\<close>

text \<open>
  Claim C4. Every server of the listing has both ticket fields, each a number and never
  \<^verbatim>\<open>null\<close>; for a guild without any row in \<^verbatim>\<open>ticket_stats\<close> (the sums of line 178 are
  \<^verbatim>\<open>NULL\<close>) both are 0.
\<close>

theorem list_servers_ticket_fields:
  assumes "store env = Some db"
  shows "\<exists>svs. fst (list_servers env ()) = (ServersBody svs, 200) \<and>
           (\<forall>sv\<in>set svs.
              (\<exists>n m. sv_tickets_opened sv = Some n \<and> sv_tickets_closed sv = Some m) \<and>
              ((\<forall>r\<in>set (ticket_stats db). ts_guild_id r \<noteq> sv_guild_id sv) \<longrightarrow>
                 sv_tickets_opened sv = Some 0 \<and> sv_tickets_closed sv = Some 0))"
proof -
  let ?svs = "map (server_of db) (select_servers db)"
  have "fst (list_servers env ()) = (ServersBody ?svs, 200)"
    using assms by (rule list_servers_body)
  moreover have "(\<exists>n m. sv_tickets_opened sv = Some n \<and> sv_tickets_closed sv = Some m) \<and>
      ((\<forall>r\<in>set (ticket_stats db). ts_guild_id r \<noteq> sv_guild_id sv) \<longrightarrow>
         sv_tickets_opened sv = Some 0 \<and> sv_tickets_closed sv = Some 0)"
    if "sv \<in> set ?svs" for sv
  proof -
    from that obtain row where sv: "sv = server_of db row" by auto
    show ?thesis unfolding sv using server_of_tickets server_of_no_rows by blast
  qed
  ultimately show ?thesis by blast
qed

theorem list_servers_ticket_fields_witness:
  "fst (list_servers sample_env ()) =
     (ServersBody (map (server_of sample_db) (select_servers sample_db)), 200)
   \<and> map sv_tickets_opened (map (server_of sample_db) (select_servers sample_db)) = [Some 0, Some 15]
   \<and> map sv_tickets_closed (map (server_of sample_db) (select_servers sample_db)) = [Some 0, Some 8]"
proof -
  have st: "store sample_env = Some sample_db" by (simp add: sample_env_def)
  from list_servers_ticket_fields[OF st] obtain svs where
    "fst (list_servers sample_env ()) = (ServersBody svs, 200)" by blast
  moreover have "fst (list_servers sample_env ()) =
     (ServersBody (map (server_of sample_db) (select_servers sample_db)), 200)"
    using st by (rule list_servers_body)
  moreover have "map sv_tickets_opened (map (server_of sample_db) (select_servers sample_db)) = [Some 0, Some 15]"
    by code_simp
  moreover have "map sv_tickets_closed (map (server_of sample_db) (select_servers sample_db)) = [Some 0, Some 8]"
    by code_simp
  ultimately show ?thesis by simp
qed

text \<open>
  Claim C10. The listing is an inner join on the key: every server returned comes from a
  row of \<^verbatim>\<open>activated_servers\<close> and a row of \<^verbatim>\<open>license_keys\<close> with the same key, and
  carries the \<^verbatim>\<open>key_value\<close> of that license; a guild whose rows match no license
  (a key without license, or no key) does not occur in the listing at all.
\<close>

theorem list_servers_inner_join:
  assumes "store env = Some db"
  shows "\<exists>svs. fst (list_servers env ()) = (ServersBody svs, 200) \<and>
           (\<forall>sv\<in>set svs. \<exists>a\<in>set (activated_servers db). \<exists>l\<in>set (license_keys db).
               key_id a = Some (lk_key_id l) \<and> sv_guild_id sv = guild_id a
               \<and> sv_license_key sv = key_value l) \<and>
           (\<forall>g. (\<forall>a\<in>set (activated_servers db). guild_id a = g \<longrightarrow>
                    (\<forall>l\<in>set (license_keys db). key_id a \<noteq> Some (lk_key_id l)))
                 \<longrightarrow> g \<notin> sv_guild_id ` set svs)"
proof -
  let ?svs = "map (server_of db) (select_servers db)"
  have body: "fst (list_servers env ()) = (ServersBody ?svs, 200)"
    using assms by (rule list_servers_body)
  have joined: "\<exists>a\<in>set (activated_servers db). \<exists>l\<in>set (license_keys db).
      key_id a = Some (lk_key_id l) \<and> sv_guild_id sv = guild_id a \<and> sv_license_key sv = key_value l"
    if "sv \<in> set ?svs" for sv
  proof -
    from that obtain a l where row: "(a, l) \<in> set (select_servers db)" and sv: "sv = server_of db (a, l)"
      by auto
    from row have "a \<in> set (activated_servers db)" "l \<in> set (license_keys db)"
      "key_id a = Some (lk_key_id l)"
      by (simp_all add: set_select_servers)
    then show ?thesis unfolding sv by (auto simp: server_of_fields)
  qed
  have omitted: "g \<notin> sv_guild_id ` set ?svs"
    if g: "\<forall>a\<in>set (activated_servers db). guild_id a = g \<longrightarrow>
            (\<forall>l\<in>set (license_keys db). key_id a \<noteq> Some (lk_key_id l))" for g
  proof
    assume "g \<in> sv_guild_id ` set ?svs"
    then obtain sv where "sv \<in> set ?svs" "sv_guild_id sv = g" by auto
    with joined[of sv] g show False by auto
  qed
  from body joined omitted show ?thesis by blast
qed

theorem list_servers_inner_join_witness:
  "fst (list_servers sample_env ()) =
     (ServersBody (map (server_of sample_db) (select_servers sample_db)), 200)
   \<and> map sv_guild_id (map (server_of sample_db) (select_servers sample_db)) = [''g2'', ''g1'']
   \<and> map sv_license_key (map (server_of sample_db) (select_servers sample_db)) = [''KEY-B'', ''KEY-A'']"
proof -
  have st: "store sample_env = Some sample_db" by (simp add: sample_env_def)
  from list_servers_inner_join[OF st] obtain svs where
    "fst (list_servers sample_env ()) = (ServersBody svs, 200)" by blast
  moreover have "fst (list_servers sample_env ()) =
     (ServersBody (map (server_of sample_db) (select_servers sample_db)), 200)"
    using st by (rule list_servers_body)
  moreover have "map sv_guild_id (map (server_of sample_db) (select_servers sample_db)) = [''g2'', ''g1'']"
    by code_simp
  moreover have "map sv_license_key (map (server_of sample_db) (select_servers sample_db)) = [''KEY-B'', ''KEY-A'']"
    by code_simp
  ultimately show ?thesis by simp
qed

section \<open>The claim about the feedback\<close>

text \<open>
  Claim C5. For the feedback rows of a guild, the rating distribution (lines 94 to 100)
  has no pair with the count 0, and its counts add up to the \<^verbatim>\<open>total\<close> of the overall
  summary (lines 86 to 90) of the same rows; so it is in every guild report.
\<close>

theorem feedback_distribution_counts:
  "(\<forall>(v, c)\<in>set (select_feedback_distribution db gid). c \<noteq> 0)
   \<and> sum_list (map snd (select_feedback_distribution db gid)) = total (select_feedback_overall db gid)
   \<and> (store env = Some db \<and> guild_stats env gid = ((GuildBody rep, code), tr) \<longrightarrow>
        (\<forall>(v, c)\<in>set (distribution rep). c \<noteq> 0)
        \<and> sum_list (map snd (distribution rep)) = total (overall rep))"
proof -
  have pos: "\<forall>(v, c)\<in>set (select_feedback_distribution db gid). c \<noteq> 0"
    using distribution_counts_positive by fastforce
  have sum: "sum_list (map snd (select_feedback_distribution db gid))
               = total (select_feedback_overall db gid)"
    by (simp add: distribution_counts_sum select_feedback_overall_def Let_def)
  show ?thesis
    using pos sum guild_stats_feedback[of env db gid rep code tr] by simp
qed

theorem feedback_distribution_counts_witness:
  "select_feedback_distribution sample_db ''g1'' = [(3, 1), (5, 2)]
   \<and> total (select_feedback_overall sample_db ''g1'') = 3
   \<and> (\<exists>rep tr. guild_stats sample_env ''g1'' = ((GuildBody rep, 200), tr)
         \<and> distribution rep = [(3, 1), (5, 2)] \<and> total (overall rep) = 3)"
proof -
  have d: "select_feedback_distribution sample_db ''g1'' = [(3, 1), (5, 2)]" by code_simp
  have t: "total (select_feedback_overall sample_db ''g1'') = 3"
    using feedback_distribution_counts[of sample_db "''g1''" sample_env, THEN conjunct2, THEN conjunct1]
    by (simp add: d)
  have g: "select_guild sample_db ''g1'' = Some (''server g1'', ''owner'')" by code_simp
  have "\<exists>rep tr. guild_stats sample_env ''g1'' = ((GuildBody rep, 200), tr)
         \<and> distribution rep = [(3, 1), (5, 2)] \<and> total (overall rep) = 3"
    by (simp add: guild_stats_def sample_env_def g select_ticket_stats_sample
        tickets_total_example d t)
  with d t show ?thesis by simp
qed

section \<open>The claim about the bounds of the average\<close>

text \<open>
  Claim C7, as the specification states it: whenever a row of the window has
  \<^verbatim>\<open>tickets_closed > 0\<close>, the average of the total lies between the least and the
  greatest \<^verbatim>\<open>avg_resolution_time\<close> among the rows with \<^verbatim>\<open>tickets_closed > 0\<close>. The
  float arithmetic of the handler does not keep this: for one day with three tickets
  closed in 0.1, the product \<^verbatim>\<open>0.1 * 3\<close> rounds to 0.30000000000000004 and the quotient
  by 3 to 0.10000000000000002, above the only resolution time of the window.
\<close>

theorem avg_resolution_total_between_counterexample:
  "(\<exists>s\<in>set tenth_window. 0 < tickets_closed s)
   \<and> is_double (Finite tenth)
   \<and> avg_resolution_total tenth_window
       = Inr (PFloat (Finite (7205759403792795 / 72057594037927936)))
   \<and> \<not> between_min_max tenth_window (Finite (7205759403792795 / 72057594037927936))"
proof -
  have a: "\<exists>s\<in>set tenth_window. 0 < tickets_closed s" by (simp add: tenth_window_def)
  have b: "is_double (Finite tenth)" by code_simp
  have c: "\<not> between_min_max tenth_window (Finite (7205759403792795 / 72057594037927936))"
    by (simp add: between_min_max_def closed_rows_def tenth_window_def tenth_def)
  from a b c tenth_value show ?thesis by simp
qed

text \<open>
  Claim C7, amended: when the resolution times of the rows with \<^verbatim>\<open>tickets_closed > 0\<close>
  are finite floats, the numerator (the sum of the products) is computed without rounding
  error, and the closed tickets of those rows number at most \<open>2^53\<close>, the average of the
  total is a float between the least and the greatest resolution time among those rows.
  The quotient itself may round: rounding is monotone and leaves the two bounds, which
  are floats, as they are.
\<close>

theorem avg_resolution_total_between:
  assumes "\<exists>s\<in>set ts. 0 < tickets_closed s"
    and "\<forall>s\<in>set (closed_rows ts). is_double (avg_resolution_time s)"
    and "py_sum (weighted_items ts) = Inr (PFloat (Finite (exact_sum ts)))"
    and "sum_list (map tickets_closed (closed_rows ts)) \<le> 2 ^ 53"
  shows "\<exists>v. avg_resolution_total ts = Inr (PFloat v) \<and> between_min_max ts v"
proof -
  have "avg_resolution_total ts =
          Inr (PFloat (round_double
            (exact_sum ts / of_int (sum_list (map tickets_closed (closed_rows ts))))))"
    using assms(1,3,4) by (rule avg_resolution_total_exact)
  then show ?thesis using exact_mean_between[OF assms(1,2)] by blast
qed

theorem avg_resolution_total_between_witness:
  "(\<exists>s\<in>set mixed_window. 0 < tickets_closed s)
   \<and> avg_resolution_total mixed_window
       = Inr (PFloat (Finite (7130699410003285 / 1125899906842624)))
   \<and> between_min_max mixed_window (Finite (7130699410003285 / 1125899906842624))"
proof -
  have a: "\<exists>s\<in>set mixed_window. 0 < tickets_closed s" by (simp add: mixed_window_def)
  have five: "round_double 5 = Finite 5" by code_simp
  have seven: "round_double 7 = Finite 7" by code_simp
  have b: "\<forall>s\<in>set (closed_rows mixed_window). is_double (avg_resolution_time s)"
    by (simp add: mixed_window_def closed_rows_def five seven)
  have c: "py_sum (weighted_items mixed_window) = Inr (PFloat (Finite (exact_sum mixed_window)))"
    by code_simp
  have d: "sum_list (map tickets_closed (closed_rows mixed_window)) \<le> 2 ^ 53"
    by (simp add: mixed_window_def closed_rows_def)
  have v: "avg_resolution_total mixed_window
       = Inr (PFloat (Finite (7130699410003285 / 1125899906842624)))"
    by code_simp
  from avg_resolution_total_between[OF a b c d] v a show ?thesis by simp
qed

end
